theory Spec2Isabelle
  imports Main "HOL-Library.AList"
begin

section \<open>JavaScript values, objects and the heap\<close>

text \<open>
  The store of \<^verbatim>\<open>src/index.ts\<close> compares states with \<^verbatim>\<open>Object.is\<close> and inspects
  prototypes, so objects are modelled with identity: an object lives in a heap and a value
  refers to it by address. A function value is a \<open>Fun\<close> with the identity of the function;
  what it does when called is given by the environment (see \<open>env\<close> below): it returns a
  value or throws, and may change the heap on the way, but does not call back into the
  store. Numbers are integers, with \<open>NaN\<close> apart and no negative zero; \<^verbatim>\<open>Object.is\<close> is
  then equality of values. An object is its prototype and its own enumerable string-keyed
  data properties, all writable, in the order \<^verbatim>\<open>Object.keys\<close> lists them (no accessors, no
  symbol keys). The only accessor is the one every JavaScript host has,
  \<^verbatim>\<open>Object.prototype.__proto__\<close>. A function is opaque: it has no properties of its own,
  and a class defines no \<^verbatim>\<open>__proto__\<close> of its own.
\<close>

type_synonym addr = nat

datatype prototype =
    ObjectPrototype       \<comment> \<open>\<^verbatim>\<open>Object.prototype\<close>: object literals, \<^verbatim>\<open>JSON.parse\<close> results\<close>
  | ArrayPrototype        \<comment> \<open>arrays\<close>
  | NullPrototype         \<comment> \<open>\<^verbatim>\<open>Object.create(null)\<close>\<close>
  | ClassPrototype nat    \<comment> \<open>instances of the class with that number\<close>
  | ObjectAt addr         \<comment> \<open>the prototype is the object at that address\<close>
  | FunctionAt nat        \<comment> \<open>the prototype is the function with that number\<close>

datatype jsval =
    Undefined
  | Null
  | Bool bool
  | Num int
  | NaN
  | Str string
  | Ref addr
  | Fun nat

record obj =
  proto :: prototype
  props :: "(string \<times> jsval) list"

type_synonym heap = "obj list"

text \<open>A call either returns or throws; both leave a state behind.\<close>

datatype ('s, 'a) completion = Normal 'a | Abrupt jsval 's

fun after :: "('s, 's) completion \<Rightarrow> 's" where
  "after (Normal s) = s"
| "after (Abrupt e s) = s"

fun thrown :: "('s, 'a) completion \<Rightarrow> jsval option" where
  "thrown (Normal x) = None"
| "thrown (Abrupt e s) = Some e"

definition Object_is :: "jsval \<Rightarrow> jsval \<Rightarrow> bool" where
  "Object_is a b = (a = b)"

text \<open>
  \<^verbatim>\<open>typeof obj === "object" && obj !== null && Object.getPrototypeOf(obj) === Object.prototype\<close>
\<close>

fun isPlainObject :: "heap \<Rightarrow> jsval \<Rightarrow> bool" where
  "isPlainObject h (Ref a) = (a < length h \<and> proto (h ! a) = ObjectPrototype)"
| "isPlainObject h _ = False"

fun props_of :: "heap \<Rightarrow> jsval \<Rightarrow> (string \<times> jsval) list" where
  "props_of h (Ref a) = (if a < length h then props (h ! a) else [])"
| "props_of h _ = []"

text \<open>
  The order of the own keys of an object: the array indices (the decimal numerals of
  the integers below \<open>2\<^sup>3\<^sup>2 - 1\<close>, without leading zeros) in ascending order, then the
  other keys in the order they were created.
\<close>

fun position :: "char \<Rightarrow> string \<Rightarrow> int option" where
  "position c [] = None"
| "position c (d # ds) = (if c = d then Some 0 else map_option (\<lambda>i. i + 1) (position c ds))"

definition digit_value :: "char \<Rightarrow> int option" where
  "digit_value c = position c ''0123456789''"

fun numeral_value :: "int \<Rightarrow> string \<Rightarrow> int option" where
  "numeral_value acc [] = Some acc"
| "numeral_value acc (c # cs) =
     (case digit_value c of None \<Rightarrow> None | Some d \<Rightarrow> numeral_value (10 * acc + d) cs)"

definition array_index :: "string \<Rightarrow> int option" where
  "array_index k =
     (if k = [] \<or> (1 < length k \<and> hd k = CHR ''0'') then None
      else case numeral_value 0 k of
             None \<Rightarrow> None
           | Some n \<Rightarrow> if n < 4294967295 then Some n else None)"

definition comes_before :: "int \<Rightarrow> string \<times> jsval \<Rightarrow> bool" where
  "comes_before n p = (case array_index (fst p) of None \<Rightarrow> False | Some m \<Rightarrow> m < n)"

text \<open>A new own data property takes its place in that order.\<close>

definition create_property :: "string \<Rightarrow> jsval \<Rightarrow> (string \<times> jsval) list \<Rightarrow> (string \<times> jsval) list" where
  "create_property k v ps =
     (case array_index k of
        None \<Rightarrow> ps @ [(k, v)]
      | Some n \<Rightarrow> takeWhile (comes_before n) ps @ (k, v) # dropWhile (comes_before n) ps)"

text \<open>
  Whether the lookup of \<^verbatim>\<open>__proto__\<close> along a prototype chain ends at the accessor of
  \<^verbatim>\<open>Object.prototype\<close>. It does not when the chain ends at \<^verbatim>\<open>null\<close> first, or when an
  object on the way has a data property of that name. The first argument bounds the number
  of objects on the chain; a chain has no cycle, so the size of the heap is enough.
\<close>

fun reaches_proto_accessor :: "nat \<Rightarrow> heap \<Rightarrow> prototype \<Rightarrow> bool" where
  "reaches_proto_accessor 0 h (ObjectAt a) = False"
| "reaches_proto_accessor (Suc n) h (ObjectAt a) =
     (a < length h \<and> ''__proto__'' \<notin> set (map fst (props (h ! a))) \<and>
      reaches_proto_accessor n h (proto (h ! a)))"
| "reaches_proto_accessor n h NullPrototype = False"
| "reaches_proto_accessor n h p = True"

text \<open>
  The setter of \<^verbatim>\<open>Object.prototype.__proto__\<close>: an object or \<^verbatim>\<open>null\<close> becomes the
  prototype, any other value is ignored.
\<close>

fun set_prototype :: "jsval \<Rightarrow> obj \<Rightarrow> obj" where
  "set_prototype (Ref a) target = target\<lparr>proto := ObjectAt a\<rparr>"
| "set_prototype (Fun f) target = target\<lparr>proto := FunctionAt f\<rparr>"
| "set_prototype Null target = target\<lparr>proto := NullPrototype\<rparr>"
| "set_prototype v target = target"

text \<open>
  The assignment \<^verbatim>\<open>target[k] = v\<close>: an own property takes the value; otherwise
  \<^verbatim>\<open>__proto__\<close> goes to the accessor when the chain of the target reaches it, and every
  other key (data properties being writable wherever they are inherited from) becomes a
  new own property.
\<close>

definition set_property :: "heap \<Rightarrow> string \<Rightarrow> jsval \<Rightarrow> obj \<Rightarrow> obj" where
  "set_property h k v target =
     (if k \<in> set (map fst (props target))
      then target\<lparr>props := AList.update k v (props target)\<rparr>
      else if k = ''__proto__'' \<and> reaches_proto_accessor (length h) h (proto target)
      then set_prototype v target
      else target\<lparr>props := create_property k v (props target)\<rparr>)"

text \<open>
  \<^verbatim>\<open>Object.assign(target, source)\<close> assigns every own property of the source to the target,
  in the order of the source's keys.
\<close>

fun Object_assign :: "heap \<Rightarrow> obj \<Rightarrow> (string \<times> jsval) list \<Rightarrow> obj" where
  "Object_assign h target [] = target"
| "Object_assign h target ((k, v) # source) = Object_assign h (set_property h k v target) source"

text \<open>\<^verbatim>\<open>Object.assign({}, prevState, nextState)\<close>: a new object literal, assigned from both.\<close>

definition merged :: "heap \<Rightarrow> jsval \<Rightarrow> jsval \<Rightarrow> obj" where
  "merged h prevState nextState =
     Object_assign h
       (Object_assign h \<lparr>proto = ObjectPrototype, props = []\<rparr> (props_of h prevState))
       (props_of h nextState)"

section \<open>The storage backend\<close>

text \<open>
  \<^verbatim>\<open>StateStorage\<close> is an interface; the code sees only what its three methods return or
  throw. The backend is a key-value list with, for each method, how it answers:
  \<open>getItem\<close> returns the value, throws, or returns a promise that the host settles later;
  \<open>setItem\<close> and \<open>removeItem\<close> succeed (directly or through a promise that is fulfilled),
  throw synchronously, or return a promise that is rejected (the write is then lost).
  The journal records the calls made.
\<close>

datatype get_mode = GetReturns | GetThrows jsval | GetPromise

datatype put_mode = PutSucceeds | PutThrows jsval | PutRejects jsval

datatype storage_op = GetItem string | SetItem string string | RemoveItem string

record storage =
  items :: "(string \<times> string) list"
  getItem_mode :: get_mode
  setItem_mode :: put_mode
  removeItem_mode :: put_mode
  journal :: "storage_op list"

datatype got = Got "string option" | Promise

definition getItem :: "string \<Rightarrow> storage \<Rightarrow> (storage, got \<times> storage) completion" where
  "getItem k st =
     (let st' = st\<lparr>journal := journal st @ [GetItem k]\<rparr>
      in case getItem_mode st of
           GetReturns \<Rightarrow> Normal (Got (map_of (items st) k), st')
         | GetThrows e \<Rightarrow> Abrupt e st'
         | GetPromise \<Rightarrow> Normal (Promise, st'))"

definition setItem :: "string \<Rightarrow> string \<Rightarrow> storage \<Rightarrow> (storage, storage) completion" where
  "setItem k v st =
     (let st' = st\<lparr>journal := journal st @ [SetItem k v]\<rparr>
      in case setItem_mode st of
           PutSucceeds \<Rightarrow> Normal (st'\<lparr>items := AList.update k v (items st)\<rparr>)
         | PutThrows e \<Rightarrow> Abrupt e st'
         | PutRejects e \<Rightarrow> Normal st')"

definition removeItem :: "string \<Rightarrow> storage \<Rightarrow> (storage, storage) completion" where
  "removeItem k st =
     (let st' = st\<lparr>journal := journal st @ [RemoveItem k]\<rparr>
      in case removeItem_mode st of
           PutSucceeds \<Rightarrow> Normal (st'\<lparr>items := AList.delete k (items st)\<rparr>)
         | PutThrows e \<Rightarrow> Abrupt e st'
         | PutRejects e \<Rightarrow> Normal st')"

section \<open>The store\<close>

text \<open>
  The listeners the code registers itself are the one-shot guard of
  \<^verbatim>\<open>createPersistentStore\<close> (\<^verbatim>\<open>() => { changed = true; unsubscribe() }\<close>) and the
  write-through (\<^verbatim>\<open>state => storage.setItem(storageKey, stringify(state))\<close>). A listener of
  the client is a \<open>Subscriber\<close>; the model records that it was called and with what. It
  returns or throws, as the environment says, and is taken not to call back into the store.
\<close>

datatype listener = Subscriber nat | ChangedGuard | WriteThrough

text \<open>
  The world: the heap, the backend and the console of the host, and the variables the
  closures of \<^verbatim>\<open>createStore\<close> and \<^verbatim>\<open>createPersistentStore\<close> share: \<open>nowState\<close>, the set
  \<open>listeners\<close> (a JavaScript \<^verbatim>\<open>Set\<close>, which keeps insertion order) and \<open>changed\<close>.
  \<open>notified\<close> lists every listener invocation with its two arguments.
\<close>

record world =
  heap :: heap
  backend :: storage
  console :: "jsval list"
  nowState :: jsval
  listeners :: "listener list"
  changed :: bool
  notified :: "(listener \<times> jsval \<times> jsval) list"

text \<open>
  What the program is parameterised with: the behaviour of function values when called with
  one argument, what a listener of the client throws, if anything, when called with the new
  and the previous state, and the options of the persistent store (\<^verbatim>\<open>JSON.stringify\<close>
  and \<^verbatim>\<open>JSON.parse\<close> by default, both of which can throw).
\<close>

record env =
  call :: "nat \<Rightarrow> jsval \<Rightarrow> heap \<Rightarrow> (heap, jsval \<times> heap) completion"
  client :: "nat \<Rightarrow> heap \<Rightarrow> jsval \<Rightarrow> jsval \<Rightarrow> jsval option"
  storageKey :: string
  stringify :: "heap \<Rightarrow> jsval \<Rightarrow> jsval + string"
  parse :: "string \<Rightarrow> heap \<Rightarrow> (heap, jsval \<times> heap) completion"

text \<open>\<^verbatim>\<open>typeof init === "function" ? init() : init\<close>\<close>

definition initial_state :: "env \<Rightarrow> jsval \<Rightarrow> heap \<Rightarrow> (heap, jsval \<times> heap) completion" where
  "initial_state env init h = (case init of Fun f \<Rightarrow> call env f Undefined h | _ \<Rightarrow> Normal (init, h))"

definition createStore :: "env \<Rightarrow> jsval \<Rightarrow> world \<Rightarrow> (world, world) completion" where
  "createStore env init w =
     (case initial_state env init (heap w) of
        Abrupt e h' \<Rightarrow> Abrupt e (w\<lparr>heap := h'\<rparr>)
      | Normal (v, h') \<Rightarrow> Normal (w\<lparr>heap := h', nowState := v, listeners := [], notified := []\<rparr>))"

definition getState :: "world \<Rightarrow> jsval" where
  "getState w = nowState w"

text \<open>\<^verbatim>\<open>listeners.add(listener)\<close> and the \<^verbatim>\<open>listeners.delete(listener)\<close> of \<^verbatim>\<open>unsubscribe\<close>.\<close>

definition subscribe :: "listener \<Rightarrow> world \<Rightarrow> world" where
  "subscribe l w = (if l \<in> set (listeners w) then w else w\<lparr>listeners := listeners w @ [l]\<rparr>)"

definition unsubscribe :: "listener \<Rightarrow> world \<Rightarrow> world" where
  "unsubscribe l w = w\<lparr>listeners := removeAll l (listeners w)\<rparr>"

text \<open>\<^verbatim>\<open>storage.setItem(storageKey, stringify(state))\<close>\<close>

definition write_through :: "env \<Rightarrow> jsval \<Rightarrow> world \<Rightarrow> (world, world) completion" where
  "write_through env state w =
     (case stringify env (heap w) state of
        Inl e \<Rightarrow> Abrupt e w
      | Inr s \<Rightarrow>
          (case setItem (storageKey env) s (backend w) of
             Abrupt e st \<Rightarrow> Abrupt e (w\<lparr>backend := st\<rparr>)
           | Normal st \<Rightarrow> Normal (w\<lparr>backend := st\<rparr>)))"

text \<open>One call \<^verbatim>\<open>listener(nowState, prevState)\<close>.\<close>

definition invoke :: "env \<Rightarrow> listener \<Rightarrow> jsval \<Rightarrow> jsval \<Rightarrow> world \<Rightarrow> (world, world) completion" where
  "invoke env l state prev w =
     (let w' = w\<lparr>notified := notified w @ [(l, state, prev)]\<rparr>
      in case l of
           Subscriber n \<Rightarrow>
             (case client env n (heap w) state prev of None \<Rightarrow> Normal w' | Some e \<Rightarrow> Abrupt e w')
         | ChangedGuard \<Rightarrow> Normal (unsubscribe ChangedGuard (w'\<lparr>changed := True\<rparr>))
         | WriteThrough \<Rightarrow> write_through env state w')"

text \<open>
  \<^verbatim>\<open>listeners.forEach(listener => listener(nowState, prevState))\<close>: in insertion order; a
  listener deleted before its turn is skipped; an exception ends the iteration and
  propagates.
\<close>

fun forEach :: "env \<Rightarrow> listener list \<Rightarrow> jsval \<Rightarrow> world \<Rightarrow> (world, world) completion" where
  "forEach env [] prev w = Normal w"
| "forEach env (l # ls) prev w =
     (if l \<in> set (listeners w)
      then (case invoke env l (nowState w) prev w of
              Abrupt e w' \<Rightarrow> Abrupt e w'
            | Normal w' \<Rightarrow> forEach env ls prev w')
      else forEach env ls prev w)"

text \<open>
  \<^verbatim>\<open>typeof newState === "function" ? newState(prevState) : newState\<close> (line 113).
\<close>

definition nextState_of :: "env \<Rightarrow> jsval \<Rightarrow> world \<Rightarrow> (heap, jsval \<times> heap) completion" where
  "nextState_of env newState w =
     (case newState of
        Fun f \<Rightarrow> call env f (nowState w) (heap w)
      | _ \<Rightarrow> Normal (newState, heap w))"

text \<open>Lines 114 to 120 of \<^verbatim>\<open>setState\<close>, with the candidate computed on the heap \<open>h\<close>.\<close>

definition commit :: "env \<Rightarrow> jsval \<Rightarrow> bool \<Rightarrow> heap \<Rightarrow> world \<Rightarrow> (world, world) completion" where
  "commit env nextState replace h w =
     (let prevState = nowState w
      in if Object_is prevState nextState then Normal (w\<lparr>heap := h\<rparr>)
         else if isPlainObject h prevState \<and> isPlainObject h nextState \<and> \<not> replace
         then forEach env (listeners w) prevState
                (w\<lparr>heap := h @ [merged h prevState nextState], nowState := Ref (length h)\<rparr>)
         else forEach env (listeners w) prevState (w\<lparr>heap := h, nowState := nextState\<rparr>))"

definition setState :: "env \<Rightarrow> jsval \<Rightarrow> bool \<Rightarrow> world \<Rightarrow> (world, world) completion" where
  "setState env newState replace w =
     (if Object_is (nowState w) newState then Normal w
      else (case nextState_of env newState w of
              Abrupt e h \<Rightarrow> Abrupt e (w\<lparr>heap := h\<rparr>)
            | Normal (nextState, h) \<Rightarrow> commit env nextState replace h w))"

section \<open>The persistent store\<close>

text \<open>
  Lines 306 to 319: the store built from \<open>init\<close>, written through once, with the one-shot
  guard subscribed before the write-through.
\<close>

definition store_from_init :: "env \<Rightarrow> jsval \<Rightarrow> world \<Rightarrow> (world, world) completion" where
  "store_from_init env init w =
     (case createStore env init w of
        Abrupt e w' \<Rightarrow> Abrupt e w'
      | Normal w1 \<Rightarrow>
          (case write_through env (getState w1) w1 of
             Abrupt e w' \<Rightarrow> Abrupt e w'
           | Normal w2 \<Rightarrow> Normal (subscribe WriteThrough (subscribe ChangedGuard w2))))"

text \<open>Lines 294 to 303: the store built from the parsed data.\<close>

definition store_from_data :: "env \<Rightarrow> jsval \<Rightarrow> world \<Rightarrow> (world, world) completion" where
  "store_from_data env data w =
     (case createStore env data w of
        Abrupt e w' \<Rightarrow> Abrupt e w'
      | Normal w1 \<Rightarrow>
          (case write_through env (getState w1) w1 of
             Abrupt e w' \<Rightarrow> Abrupt e w'
           | Normal w2 \<Rightarrow> Normal (subscribe WriteThrough w2)))"

text \<open>
  The \<^verbatim>\<open>try { data = parse(str); success = true } catch (error) { storage.removeItem(storageKey);
  console.error(error) }\<close> of lines 269 to 275 and 286 to 292: the parsed data, or nothing
  after the entry is removed and the error logged; \<open>removeItem\<close> is called inside the
  \<^verbatim>\<open>catch\<close> block, so what it throws propagates.
\<close>

definition try_parse :: "env \<Rightarrow> string \<Rightarrow> world \<Rightarrow> (world, jsval option \<times> world) completion" where
  "try_parse env str w =
     (case parse env str (heap w) of
        Normal (data, h) \<Rightarrow> Normal (Some data, w\<lparr>heap := h\<rparr>)
      | Abrupt e h \<Rightarrow>
          (case removeItem (storageKey env) (backend w) of
             Abrupt e' st \<Rightarrow> Abrupt e' (w\<lparr>heap := h, backend := st\<rparr>)
           | Normal st \<Rightarrow> Normal (None, w\<lparr>heap := h, backend := st, console := console w @ [e]\<rparr>)))"

definition createPersistentStore :: "env \<Rightarrow> jsval \<Rightarrow> world \<Rightarrow> (world, world) completion" where
  "createPersistentStore env init w0 =
     (case getItem (storageKey env) (backend w0) of
        Abrupt e st \<Rightarrow> Abrupt e (w0\<lparr>backend := st\<rparr>)
      | Normal (strOrPromise, st) \<Rightarrow>
          (let w = w0\<lparr>backend := st, changed := False\<rparr>
           in case strOrPromise of
                Promise \<Rightarrow> store_from_init env init w
              | Got None \<Rightarrow> store_from_init env init w
              | Got (Some str) \<Rightarrow>
                  (case try_parse env str w of
                     Abrupt e w' \<Rightarrow> Abrupt e w'
                   | Normal (Some data, w') \<Rightarrow> store_from_data env data w'
                   | Normal (None, w') \<Rightarrow> store_from_init env init w')))"

text \<open>
  The callback given to \<^verbatim>\<open>then\<close> (lines 265 to 279), run by the host when the promise of
  \<open>getItem\<close> is fulfilled with \<open>str\<close>.
\<close>

definition then_callback :: "env \<Rightarrow> string option \<Rightarrow> world \<Rightarrow> (world, world) completion" where
  "then_callback env str w =
     (if changed w then Normal w
      else case str of
             None \<Rightarrow> Normal w
           | Some s \<Rightarrow>
               (case try_parse env s w of
                  Abrupt e w' \<Rightarrow> Abrupt e w'
                | Normal (None, w') \<Rightarrow> Normal w'
                | Normal (Some data, w') \<Rightarrow> setState env data False w'))"

text \<open>The callback given to \<^verbatim>\<open>catch\<close> (lines 280 to 282).\<close>

definition catch_callback :: "jsval \<Rightarrow> world \<Rightarrow> world" where
  "catch_callback error w = w\<lparr>console := console w @ [error]\<rparr>"

text \<open>
  The promise chain \<^verbatim>\<open>strOrPromise.then(...).catch(...)\<close>: fulfilled, the first callback
  runs and what it throws goes to the second; rejected, only the second runs.
\<close>

definition getItem_fulfilled :: "env \<Rightarrow> string option \<Rightarrow> world \<Rightarrow> world" where
  "getItem_fulfilled env str w =
     (case then_callback env str w of
        Normal w' \<Rightarrow> w'
      | Abrupt e w' \<Rightarrow> catch_callback e w')"

definition getItem_rejected :: "jsval \<Rightarrow> world \<Rightarrow> world" where
  "getItem_rejected error w = catch_callback error w"

definition removeStorage :: "env \<Rightarrow> world \<Rightarrow> (world, world) completion" where
  "removeStorage env w =
     (case removeItem (storageKey env) (backend w) of
        Abrupt e st \<Rightarrow> Abrupt e (w\<lparr>backend := st\<rparr>)
      | Normal st \<Rightarrow> Normal (w\<lparr>backend := st\<rparr>))"

section \<open>What a client does with a store\<close>

text \<open>
  A client calls \<open>setState\<close>, subscribes and unsubscribes its own listeners and calls
  \<open>removeStorage\<close>; after a call that throws it goes on with the world the call left.
\<close>

datatype action = SetState jsval bool | Subscribe nat | Unsubscribe nat | RemoveStorage

fun perform :: "env \<Rightarrow> action \<Rightarrow> world \<Rightarrow> world" where
  "perform env (SetState newState replace) w = after (setState env newState replace w)"
| "perform env (Subscribe n) w = subscribe (Subscriber n) w"
| "perform env (Unsubscribe n) w = unsubscribe (Subscriber n) w"
| "perform env RemoveStorage w = after (removeStorage env w)"

fun run :: "env \<Rightarrow> action list \<Rightarrow> world \<Rightarrow> world" where
  "run env [] w = w"
| "run env (a # as) w = run env as (perform env a w)"

text \<open>
  A call of \<open>setState\<close> commits when it reaches the assignment to \<open>nowState\<close>: neither of
  the two identity tests returns and the updater, if any, does not throw.
\<close>

definition commits :: "env \<Rightarrow> jsval \<Rightarrow> world \<Rightarrow> bool" where
  "commits env newState w =
     (\<not> Object_is (nowState w) newState \<and>
      (case nextState_of env newState w of
         Abrupt e h \<Rightarrow> False
       | Normal (nextState, h) \<Rightarrow> \<not> Object_is (nowState w) nextState))"

fun some_commit :: "env \<Rightarrow> action list \<Rightarrow> world \<Rightarrow> bool" where
  "some_commit env [] w = False"
| "some_commit env (SetState newState replace # as) w =
     (commits env newState w \<or> some_commit env as (perform env (SetState newState replace) w))"
| "some_commit env (a # as) w = some_commit env as (perform env a w)"

text \<open>An object whose prototype is not \<^verbatim>\<open>Object.prototype\<close>.\<close>

fun other_prototype :: "heap \<Rightarrow> jsval \<Rightarrow> bool" where
  "other_prototype h (Ref a) = (a < length h \<and> proto (h ! a) \<noteq> ObjectPrototype)"
| "other_prototype h _ = False"

text \<open>\<^verbatim>\<open>typeof v === "function"\<close>\<close>

fun is_function :: "jsval \<Rightarrow> bool" where
  "is_function (Fun f) = True"
| "is_function _ = False"

text \<open>
  What the write-through listener throws for a state, if anything: the exception of
  \<open>stringify\<close>, or else the one \<open>setItem\<close> throws synchronously. A promise that is
  rejected throws nothing into the caller.
\<close>

definition write_through_fails :: "env \<Rightarrow> heap \<Rightarrow> jsval \<Rightarrow> storage \<Rightarrow> jsval option" where
  "write_through_fails env h state st =
     (case stringify env h state of
        Inl e \<Rightarrow> Some e
      | Inr s \<Rightarrow> (case setItem_mode st of PutThrows e \<Rightarrow> Some e | _ \<Rightarrow> None))"

text \<open>
  What a listener throws when it is called with the new and the previous state, if
  anything, and the first exception the listeners of a list throw, in their order.
\<close>

fun listener_fails :: "env \<Rightarrow> heap \<Rightarrow> storage \<Rightarrow> jsval \<Rightarrow> jsval \<Rightarrow> listener \<Rightarrow> jsval option" where
  "listener_fails env h st state prev (Subscriber n) = client env n h state prev"
| "listener_fails env h st state prev ChangedGuard = None"
| "listener_fails env h st state prev WriteThrough = write_through_fails env h state st"

fun first_failure :: "env \<Rightarrow> heap \<Rightarrow> storage \<Rightarrow> jsval \<Rightarrow> jsval \<Rightarrow> listener list \<Rightarrow> jsval option" where
  "first_failure env h st state prev [] = None"
| "first_failure env h st state prev (l # ls) =
     (case listener_fails env h st state prev l of
        Some e \<Rightarrow> Some e
      | None \<Rightarrow> first_failure env h st state prev ls)"

text \<open>
  The one-shot guard is still to fire first, or has fired: the invariant of a store built
  by lines 306 to 319.
\<close>

definition guarded :: "world \<Rightarrow> bool" where
  "guarded w = (changed w \<or> (case listeners w of [] \<Rightarrow> False | l # ls \<Rightarrow> l = ChangedGuard))"

section \<open>The earlier revision\<close>

text \<open>
  The repository holds an earlier revision of the same module (\<^verbatim>\<open>src/unnamed/part_000\<close>).
  Its \<^verbatim>\<open>write\<close> (lines 31 to 41) has no \<open>replace\<close> parameter and no second identity test,
  and it merges whenever the previous state is plain, whatever the candidate is; its
  \<^verbatim>\<open>createPersistentStore\<close> (lines 79 to 118) neither removes an entry it cannot parse nor
  writes the state through at construction. The listeners are the same two.

  \<^verbatim>\<open>Object.assign\<close> takes any value as a source: the own enumerable properties of an
  object, the characters of a string under their indices, and nothing for the other
  primitives and for a function without properties of its own.
\<close>

function decimal :: "nat \<Rightarrow> string" where
  "decimal n =
     (if n < 10 then [''0123456789'' ! n]
      else decimal (n div 10) @ [''0123456789'' ! (n mod 10)])"
  by pat_completeness auto
termination
  by (relation "measure id") auto

definition own_props :: "heap \<Rightarrow> jsval \<Rightarrow> (string \<times> jsval) list" where
  "own_props h v =
     (case v of
        Ref a \<Rightarrow> props_of h (Ref a)
      | Str s \<Rightarrow> map (\<lambda>i. (decimal i, Str [s ! i])) [0..<length s]
      | _ \<Rightarrow> [])"

definition write_earlier :: "env \<Rightarrow> jsval \<Rightarrow> world \<Rightarrow> (world, world) completion" where
  "write_earlier env newState w =
     (if Object_is (nowState w) newState then Normal w
      else let prevState = nowState w
           in if isPlainObject (heap w) prevState
              then (case nextState_of env newState w of
                      Abrupt e h \<Rightarrow> Abrupt e (w\<lparr>heap := h\<rparr>)
                    | Normal (nextState, h) \<Rightarrow>
                        forEach env (listeners w) prevState
                          (w\<lparr>heap := h @ [Object_assign h
                                            (Object_assign h \<lparr>proto = ObjectPrototype, props = []\<rparr>
                                               (own_props h prevState))
                                            (own_props h nextState)],
                             nowState := Ref (length h)\<rparr>))
              else (case nextState_of env newState w of
                      Abrupt e h \<Rightarrow> Abrupt e (w\<lparr>heap := h\<rparr>)
                    | Normal (nextState, h) \<Rightarrow>
                        forEach env (listeners w) prevState (w\<lparr>heap := h, nowState := nextState\<rparr>)))"

text \<open>Lines 111 to 116 of the earlier revision.\<close>

definition earlier_from_init :: "env \<Rightarrow> jsval \<Rightarrow> world \<Rightarrow> (world, world) completion" where
  "earlier_from_init env init w =
     (case createStore env init w of
        Abrupt e w' \<Rightarrow> Abrupt e w'
      | Normal w1 \<Rightarrow> Normal (subscribe WriteThrough (subscribe ChangedGuard w1)))"

definition createPersistentStore_earlier :: "env \<Rightarrow> jsval \<Rightarrow> world \<Rightarrow> (world, world) completion" where
  "createPersistentStore_earlier env init w0 =
     (case getItem (storageKey env) (backend w0) of
        Abrupt e st \<Rightarrow> Abrupt e (w0\<lparr>backend := st\<rparr>)
      | Normal (strOrPromise, st) \<Rightarrow>
          (let w = w0\<lparr>backend := st, changed := False\<rparr>
           in case strOrPromise of
                Promise \<Rightarrow> earlier_from_init env init w
              | Got None \<Rightarrow> earlier_from_init env init w
              | Got (Some str) \<Rightarrow>
                  (case parse env str (heap w) of
                     Normal (data, h) \<Rightarrow>
                       (case createStore env data (w\<lparr>heap := h\<rparr>) of
                          Abrupt e w' \<Rightarrow> Abrupt e w'
                        | Normal w1 \<Rightarrow> Normal (subscribe WriteThrough w1))
                   | Abrupt e h \<Rightarrow>
                       earlier_from_init env init (w\<lparr>heap := h, console := console w @ [e]\<rparr>))))"

text \<open>
  Lines 88 to 95 of the earlier revision: the callback of \<^verbatim>\<open>then\<close> calls \<^verbatim>\<open>restore\<close>
  outside any \<^verbatim>\<open>try\<close>, and what it throws goes to the callback of \<^verbatim>\<open>catch\<close>.
\<close>

definition getItem_fulfilled_earlier :: "env \<Rightarrow> string option \<Rightarrow> world \<Rightarrow> world" where
  "getItem_fulfilled_earlier env str w =
     (if changed w then w
      else case str of
             None \<Rightarrow> w
           | Some s \<Rightarrow>
               (case parse env s (heap w) of
                  Abrupt e h \<Rightarrow> catch_callback e (w\<lparr>heap := h\<rparr>)
                | Normal (data, h) \<Rightarrow>
                    (case write_earlier env data (w\<lparr>heap := h\<rparr>) of
                       Normal w' \<Rightarrow> w'
                     | Abrupt e w' \<Rightarrow> catch_callback e w')))"

section \<open>A small environment for examples\<close>

text \<open>
  Function 0 is \<^verbatim>\<open>prev => prev\<close>, function 1 is \<^verbatim>\<open>() => 7\<close>, function 2 is
  \<^verbatim>\<open>prev => prev + 1\<close> on numbers, function 3 returns function 1, and every other
  function throws. The parser knows the texts \<open>5\<close> and \<open>{a:5}\<close> and throws on every
  other one.
\<close>

definition example_call :: "nat \<Rightarrow> jsval \<Rightarrow> heap \<Rightarrow> (heap, jsval \<times> heap) completion" where
  "example_call f v h =
     (if f = 0 then Normal (v, h)
      else if f = 1 then Normal (Num 7, h)
      else if f = 2 then Normal ((case v of Num n \<Rightarrow> Num (n + 1) | _ \<Rightarrow> NaN), h)
      else if f = 3 then Normal (Fun 1, h)
      else Abrupt (Str ''TypeError'') h)"

text \<open>The listener 13 of the client throws; the others return.\<close>

definition example_client :: "nat \<Rightarrow> heap \<Rightarrow> jsval \<Rightarrow> jsval \<Rightarrow> jsval option" where
  "example_client n h state prev = (if n = 13 then Some (Str ''Error'') else None)"

definition example_stringify :: "heap \<Rightarrow> jsval \<Rightarrow> jsval + string" where
  "example_stringify h v =
     (case v of
        Num n \<Rightarrow> Inr (if n = 5 then ''5'' else ''0'')
      | Ref a \<Rightarrow> Inr ''{}''
      | _ \<Rightarrow> Inl (Str ''TypeError''))"

definition example_parse :: "string \<Rightarrow> heap \<Rightarrow> (heap, jsval \<times> heap) completion" where
  "example_parse s h =
     (if s = ''5'' then Normal (Num 5, h)
      else if s = ''{a:5}''
      then Normal (Ref (length h), h @ [\<lparr>proto = ObjectPrototype, props = [(''a'', Num 5)]\<rparr>])
      else Abrupt (Str ''SyntaxError'') h)"

definition example_env :: env where
  "example_env =
     \<lparr>call = example_call, client = example_client, storageKey = ''react-soda-x'',
      stringify = example_stringify, parse = example_parse\<rparr>"

definition example_storage :: "(string \<times> string) list \<Rightarrow> get_mode \<Rightarrow> storage" where
  "example_storage kvs g =
     \<lparr>items = kvs, getItem_mode = g, setItem_mode = PutSucceeds,
      removeItem_mode = PutSucceeds, journal = []\<rparr>"

text \<open>A world in which no store has been created yet.\<close>

definition host :: "heap \<Rightarrow> storage \<Rightarrow> world" where
  "host h st =
     \<lparr>heap = h, backend = st, console = [], nowState = Undefined, listeners = [],
      changed = False, notified = []\<rparr>"

text \<open>The plain store \<^verbatim>\<open>createStore(init)\<close> on a heap, with no persistence.\<close>

definition example_store :: "heap \<Rightarrow> jsval \<Rightarrow> world" where
  "example_store h init =
     after (createStore example_env init (host h (example_storage [] GetReturns)))"

text \<open>
  The objects \<^verbatim>\<open>{a:1}\<close>, \<^verbatim>\<open>{b:2}\<close>, \<^verbatim>\<open>{a:1,b:2}\<close>, \<^verbatim>\<open>{b:3}\<close>, the result of
  \<^verbatim>\<open>JSON.parse('{"__proto__":null}')\<close> and the array \<^verbatim>\<open>[1]\<close>.
\<close>

definition obj_a1 :: obj where
  "obj_a1 = \<lparr>proto = ObjectPrototype, props = [(''a'', Num 1)]\<rparr>"

definition obj_b2 :: obj where
  "obj_b2 = \<lparr>proto = ObjectPrototype, props = [(''b'', Num 2)]\<rparr>"

definition obj_a1b2 :: obj where
  "obj_a1b2 = \<lparr>proto = ObjectPrototype, props = [(''a'', Num 1), (''b'', Num 2)]\<rparr>"

definition obj_b3 :: obj where
  "obj_b3 = \<lparr>proto = ObjectPrototype, props = [(''b'', Num 3)]\<rparr>"

definition obj_proto_null :: obj where
  "obj_proto_null = \<lparr>proto = ObjectPrototype, props = [(''__proto__'', Null)]\<rparr>"

definition array_1 :: obj where
  "array_1 = \<lparr>proto = ArrayPrototype, props = [(''0'', Num 1)]\<rparr>"

text \<open>
  Persistent stores for the examples: on an empty backend that answers with a promise, on an
  empty backend that answers directly, and, with the object \<^verbatim>\<open>{a:1,b:2}\<close> as initial
  state, on a backend that holds \<open>{a:5}\<close> and answers with a promise, or directly.
  \<open>example_corrupt_storage\<close> holds a text the parser throws on, with a given behaviour of
  \<open>removeItem\<close>. \<open>storage_full\<close> is the same world once the backend has no room left.
\<close>

definition example_async_store :: world where
  "example_async_store =
     after (createPersistentStore example_env (Num 0) (host [] (example_storage [] GetPromise)))"

definition example_sync_store :: world where
  "example_sync_store =
     after (createPersistentStore example_env (Num 5) (host [] (example_storage [] GetReturns)))"

definition example_async_record_store :: world where
  "example_async_record_store =
     after (createPersistentStore example_env (Ref 0)
              (host [obj_a1b2] (example_storage [(''react-soda-x'', ''{a:5}'')] GetPromise)))"

definition example_sync_record_store :: world where
  "example_sync_record_store =
     after (createPersistentStore example_env (Ref 0)
              (host [obj_a1b2] (example_storage [(''react-soda-x'', ''{a:5}'')] GetReturns)))"

definition example_corrupt_storage :: "put_mode \<Rightarrow> storage" where
  "example_corrupt_storage r =
     (example_storage [(''react-soda-x'', ''{a:'')] GetReturns)\<lparr>removeItem_mode := r\<rparr>"

definition storage_full :: "world \<Rightarrow> world" where
  "storage_full w =
     w\<lparr>backend := (backend w)\<lparr>setItem_mode := PutThrows (Str ''QuotaExceededError'')\<rparr>\<rparr>"

section \<open>Listeners leave the state alone\<close>

text \<open>
  No listener of the model assigns \<open>nowState\<close>, allocates or logs: whatever the iteration
  over the listeners does, and whether it ends normally or with an exception, the state,
  the heap and the console are those it started with.
\<close>

lemma invoke_frame:
  "nowState (after (invoke env l s p w)) = nowState w \<and>
   heap (after (invoke env l s p w)) = heap w \<and>
   console (after (invoke env l s p w)) = console w"
  by (cases l)
     (auto simp: invoke_def write_through_def setItem_def unsubscribe_def Let_def
           split: sum.splits put_mode.splits option.splits)

lemma forEach_frame:
  "nowState (after (forEach env ls p w)) = nowState w \<and>
   heap (after (forEach env ls p w)) = heap w \<and>
   console (after (forEach env ls p w)) = console w"
proof (induction ls arbitrary: w)
  case Nil
  show ?case by simp
next
  case (Cons l ls)
  show ?case
  proof (cases "l \<in> set (listeners w)")
    case False
    then show ?thesis using Cons.IH [of w] by simp
  next
    case True
    show ?thesis
    proof (cases "invoke env l (nowState w) p w")
      case (Normal w')
      then have "after (invoke env l (nowState w) p w) = w'" by simp
      then have "nowState w' = nowState w \<and> heap w' = heap w \<and> console w' = console w"
        using invoke_frame [of env l "nowState w" p w] by simp
      then show ?thesis using True Normal Cons.IH [of w'] by simp
    next
      case (Abrupt e w')
      then have "after (invoke env l (nowState w) p w) = w'" by simp
      then have "nowState w' = nowState w \<and> heap w' = heap w \<and> console w' = console w"
        using invoke_frame [of env l "nowState w" p w] by simp
      then show ?thesis using True Abrupt by simp
    qed
  qed
qed

lemma commit_assigns:
  assumes "\<not> Object_is (nowState w) c"
  shows "nowState (after (commit env c replace h w)) =
           (if isPlainObject h (nowState w) \<and> isPlainObject h c \<and> \<not> replace
            then Ref (length h) else c)"
    and "heap (after (commit env c replace h w)) =
           (if isPlainObject h (nowState w) \<and> isPlainObject h c \<and> \<not> replace
            then h @ [merged h (nowState w) c] else h)"
    and "console (after (commit env c replace h w)) = console w"
  using assms by (simp_all add: commit_def Let_def forEach_frame)

lemma setState_commits:
  assumes "\<not> Object_is (nowState w) newState"
    and "nextState_of env newState w = Normal (c, h)"
  shows "setState env newState replace w = commit env c replace h w"
  using assms by (simp add: setState_def)





text \<open>Unfolding rules for the examples.\<close>

lemmas example_defs =
  example_store_def example_env_def example_call_def example_client_def example_stringify_def
  example_parse_def
  example_storage_def host_def createStore_def initial_state_def nextState_of_def Object_is_def
  obj_a1_def obj_b2_def obj_a1b2_def obj_b3_def obj_proto_null_def array_1_def

lemmas run_defs =
  setState_def commit_def merged_def set_property_def create_property_def array_index_def
  digit_value_def comes_before_def invoke_def write_through_def setItem_def getItem_def
  removeItem_def subscribe_def unsubscribe_def Let_def

lemmas persist_defs =
  createPersistentStore_def store_from_init_def store_from_data_def try_parse_def
  then_callback_def catch_callback_def getItem_fulfilled_def getItem_rejected_def getState_def
  commits_def

section \<open>The commit of \<open>setState\<close>\<close>

text \<open>
  C3. A call of \<open>setState\<close> whose argument is identical to the current state under
  \<^verbatim>\<open>Object.is\<close>, or whose updater returns a candidate identical to it, is a no-op: it does
  not throw, the current state is the same, and no listener is invoked (the record of
  invocations is the same); the listeners, the backend, the console and the \<open>changed\<close> flag
  are untouched as well.
\<close>

theorem setState_identical_is_noop:
  assumes "Object_is (nowState w) newState \<or>
           (nextState_of env newState w = Normal (c, h) \<and> Object_is (nowState w) c)"
  shows "thrown (setState env newState replace w) = None \<and>
         nowState (after (setState env newState replace w)) = nowState w \<and>
         notified (after (setState env newState replace w)) = notified w \<and>
         listeners (after (setState env newState replace w)) = listeners w \<and>
         backend (after (setState env newState replace w)) = backend w \<and>
         console (after (setState env newState replace w)) = console w \<and>
         changed (after (setState env newState replace w)) = changed w"
  using assms by (auto simp: setState_def commit_def)

theorem setState_identical_is_noop_witness:
  "nextState_of example_env (Fun 0) (subscribe (Subscriber 0) (example_store [] (Num 5))) =
     Normal (Num 5, []) \<and>
   Object_is (nowState (subscribe (Subscriber 0) (example_store [] (Num 5)))) (Num 5) \<and>
   listeners (subscribe (Subscriber 0) (example_store [] (Num 5))) = [Subscriber 0] \<and>
   thrown (setState example_env (Fun 0) False (subscribe (Subscriber 0) (example_store [] (Num 5)))) = None \<and>
   nowState (after (setState example_env (Fun 0) False (subscribe (Subscriber 0) (example_store [] (Num 5))))) = Num 5 \<and>
   notified (after (setState example_env (Fun 0) False (subscribe (Subscriber 0) (example_store [] (Num 5))))) = []"
proof -
  let ?w = "subscribe (Subscriber 0) (example_store [] (Num 5))"
  have a: "nextState_of example_env (Fun 0) ?w = Normal (Num 5, [])"
    by (simp add: example_defs subscribe_def)
  have b: "Object_is (nowState ?w) (Num 5)" by (simp add: example_defs subscribe_def)
  have c: "listeners ?w = [Subscriber 0]" by (simp add: example_defs subscribe_def)
  have d: "nowState ?w = Num 5" "notified ?w = []" by (simp_all add: example_defs subscribe_def)
  show ?thesis
    using setState_identical_is_noop [of ?w "Fun 0" example_env "Num 5" "[]" False] a b c d
    by simp
qed

text \<open>
  C1, as amended. For every call of \<open>setState\<close> that commits (the argument is not identical
  to the current state, the updater, if the argument is a function, returns, and the
  candidate is not identical to the current state either), the shallow merge is applied,
  that is the new state is a newly allocated merged object, if and only if the previous
  state and the candidate are both plain objects and \<open>replace\<close> is false; in every other
  case the candidate itself becomes the new state and nothing is allocated. This holds
  whether or not a listener throws afterwards.
\<close>

theorem setState_merge_iff:
  assumes "\<not> Object_is (nowState w) newState"
    and "nextState_of env newState w = Normal (c, h)"
    and "\<not> Object_is (nowState w) c"
  shows "((nowState (after (setState env newState replace w)) = Ref (length h) \<and>
           heap (after (setState env newState replace w)) = h @ [merged h (nowState w) c]) =
          (isPlainObject h (nowState w) \<and> isPlainObject h c \<and> \<not> replace)) \<and>
         (\<not> (isPlainObject h (nowState w) \<and> isPlainObject h c \<and> \<not> replace) \<longrightarrow>
            nowState (after (setState env newState replace w)) = c \<and>
            heap (after (setState env newState replace w)) = h)"
proof -
  have eq: "setState env newState replace w = commit env c replace h w"
    using assms(1,2) by (rule setState_commits)
  show ?thesis
  proof (cases "isPlainObject h (nowState w) \<and> isPlainObject h c \<and> \<not> replace")
    case True
    then show ?thesis
      unfolding eq using commit_assigns(1,2) [OF assms(3), of env replace h] by simp
  next
    case False
    then have "nowState (after (commit env c replace h w)) = c"
      and "heap (after (commit env c replace h w)) = h"
      using commit_assigns(1,2) [OF assms(3), of env replace h] by auto
    then show ?thesis unfolding eq using False by simp
  qed
qed

text \<open>
  At the claim's example: from \<^verbatim>\<open>{a:1}\<close>, \<^verbatim>\<open>setState({b:2}, true)\<close> makes the state the
  candidate \<^verbatim>\<open>{b:2}\<close> itself, and \<^verbatim>\<open>setState({b:2})\<close> makes it a new \<^verbatim>\<open>{a:1,b:2}\<close>.
\<close>

theorem setState_merge_iff_witness:
  "\<not> Object_is (nowState (example_store [obj_a1, obj_b2] (Ref 0))) (Ref 1) \<and>
   nextState_of example_env (Ref 1) (example_store [obj_a1, obj_b2] (Ref 0)) =
     Normal (Ref 1, [obj_a1, obj_b2]) \<and>
   nowState (after (setState example_env (Ref 1) True (example_store [obj_a1, obj_b2] (Ref 0)))) = Ref 1 \<and>
   heap (after (setState example_env (Ref 1) True (example_store [obj_a1, obj_b2] (Ref 0)))) =
     [obj_a1, obj_b2] \<and>
   nowState (after (setState example_env (Ref 1) False (example_store [obj_a1, obj_b2] (Ref 0)))) = Ref 2 \<and>
   heap (after (setState example_env (Ref 1) False (example_store [obj_a1, obj_b2] (Ref 0)))) =
     [obj_a1, obj_b2, obj_a1b2]"
proof -
  let ?w = "example_store [obj_a1, obj_b2] (Ref 0)"
  have a: "\<not> Object_is (nowState ?w) (Ref 1)" by (simp add: example_defs)
  have b: "nextState_of example_env (Ref 1) ?w = Normal (Ref 1, [obj_a1, obj_b2])"
    by (simp add: example_defs)
  have m: "merged [obj_a1, obj_b2] (Ref 0) (Ref 1) = obj_a1b2"
    by (simp add: merged_def set_property_def create_property_def array_index_def digit_value_def
          example_defs)
  have s: "nowState ?w = Ref 0" by (simp add: example_defs)
  show ?thesis
    using setState_merge_iff [OF a b a, of True] setState_merge_iff [OF a b a, of False] a b m
    by (simp add: s) (simp add: example_defs)
qed

text \<open>
  The claim as stated covers every call. When the candidate is the current state itself,
  both are plain and \<open>replace\<close> is false, yet line 111 returns before any merge: the state
  is the same object and no merged object is allocated.
\<close>

theorem setState_merge_iff_counterexample:
  "isPlainObject (heap (example_store [obj_a1] (Ref 0))) (nowState (example_store [obj_a1] (Ref 0))) \<and>
   isPlainObject (heap (example_store [obj_a1] (Ref 0))) (Ref 0) \<and>
   setState example_env (Ref 0) False (example_store [obj_a1] (Ref 0)) =
     Normal (example_store [obj_a1] (Ref 0)) \<and>
   heap (example_store [obj_a1] (Ref 0)) = [obj_a1] \<and>
   nowState (example_store [obj_a1] (Ref 0)) = Ref 0 \<and>
   \<not> (nowState (after (setState example_env (Ref 0) False (example_store [obj_a1] (Ref 0)))) = Ref 1 \<and>
      heap (after (setState example_env (Ref 0) False (example_store [obj_a1] (Ref 0)))) =
        [obj_a1, merged [obj_a1] (Ref 0) (Ref 0)])"
  by (simp add: example_defs run_defs)




text \<open>
  C9. An object whose prototype is not \<^verbatim>\<open>Object.prototype\<close> (a class instance, an
  \<^verbatim>\<open>Object.create(null)\<close> result, an array) is not plain for \<open>isPlainObject\<close>, so a commit
  with such a value as the previous state or as the candidate makes the candidate the new
  state wholesale and merges nothing.
\<close>

theorem setState_other_prototype_replaces:
  assumes "\<not> Object_is (nowState w) newState"
    and "nextState_of env newState w = Normal (c, h)"
    and "\<not> Object_is (nowState w) c"
    and "other_prototype h (nowState w) \<or> other_prototype h c"
  shows "\<not> (isPlainObject h (nowState w) \<and> isPlainObject h c) \<and>
         nowState (after (setState env newState replace w)) = c \<and>
         heap (after (setState env newState replace w)) = h"
proof -
  have np: "\<not> (isPlainObject h (nowState w) \<and> isPlainObject h c)"
    using assms(4) by (cases "nowState w"; cases c) auto
  have eq: "setState env newState replace w = commit env c replace h w"
    using assms(1,2) by (rule setState_commits)
  show ?thesis
    unfolding eq using np commit_assigns(1,2) [OF assms(3), of env replace h] by auto
qed

theorem setState_other_prototype_replaces_witness:
  "\<not> Object_is (nowState (example_store [obj_a1, array_1] (Ref 0))) (Ref 1) \<and>
   nextState_of example_env (Ref 1) (example_store [obj_a1, array_1] (Ref 0)) =
     Normal (Ref 1, [obj_a1, array_1]) \<and>
   other_prototype [obj_a1, array_1] (Ref 1) \<and>
   nowState (after (setState example_env (Ref 1) False (example_store [obj_a1, array_1] (Ref 0)))) = Ref 1 \<and>
   heap (after (setState example_env (Ref 1) False (example_store [obj_a1, array_1] (Ref 0)))) =
     [obj_a1, array_1]"
proof -
  let ?w = "example_store [obj_a1, array_1] (Ref 0)"
  have a: "\<not> Object_is (nowState ?w) (Ref 1)" by (simp add: example_defs)
  have b: "nextState_of example_env (Ref 1) ?w = Normal (Ref 1, [obj_a1, array_1])"
    by (simp add: example_defs)
  have c: "other_prototype [obj_a1, array_1] (Ref 1)" by (simp add: example_defs)
  then have d: "other_prototype [obj_a1, array_1] (nowState ?w) \<or>
                other_prototype [obj_a1, array_1] (Ref 1)" ..
  show ?thesis
    using setState_other_prototype_replaces [OF a b a d, of False] a b c by simp
qed

text \<open>
  C10, as amended. A function passed as \<open>newState\<close> that is not identical to the current
  state is an updater: it is called with the previous state and \<open>setState\<close> goes on with
  what it returns as the candidate; the function is the state afterwards only if it
  returned itself.
\<close>

theorem setState_function_is_updater:
  assumes "\<not> Object_is (nowState w) (Fun f)"
    and "call env f (nowState w) (heap w) = Normal (c, h)"
  shows "setState env (Fun f) replace w = commit env c replace h w \<and>
         (nowState (after (setState env (Fun f) replace w)) = Fun f \<longrightarrow> c = Fun f)"
proof -
  have nx: "nextState_of env (Fun f) w = Normal (c, h)"
    using assms(2) by (simp add: nextState_of_def)
  have eq: "setState env (Fun f) replace w = commit env c replace h w"
    using assms(1) nx by (rule setState_commits)
  have "c = Fun f" if "nowState (after (commit env c replace h w)) = Fun f"
  proof (cases "Object_is (nowState w) c")
    case True
    then show ?thesis using that assms(1) by (simp add: commit_def Object_is_def)
  next
    case False
    then show ?thesis
      using that commit_assigns(1) [OF False, of env replace h] by (simp split: if_splits)
  qed
  then show ?thesis unfolding eq by simp
qed

theorem setState_function_is_updater_witness:
  "\<not> Object_is (nowState (example_store [] (Num 5))) (Fun 2) \<and>
   call example_env 2 (nowState (example_store [] (Num 5))) (heap (example_store [] (Num 5))) =
     Normal (Num 6, []) \<and>
   setState example_env (Fun 2) False (example_store [] (Num 5)) =
     commit example_env (Num 6) False [] (example_store [] (Num 5)) \<and>
   nowState (after (setState example_env (Fun 2) False (example_store [] (Num 5)))) = Num 6"
proof -
  let ?w = "example_store [] (Num 5)"
  have a: "\<not> Object_is (nowState ?w) (Fun 2)" by (simp add: example_defs)
  have b: "call example_env 2 (nowState ?w) (heap ?w) = Normal (Num 6, [])"
    by (simp add: example_defs)
  have c: "nowState (after (commit example_env (Num 6) False [] ?w)) = Num 6"
    by (simp add: example_defs commit_def)
  show ?thesis
    using setState_function_is_updater [OF a b, of False] a b c by simp
qed

text \<open>
  The claim as stated says that a function is always called. A store whose state is the
  function \<^verbatim>\<open>() => 7\<close> and which is given that same function returns at line 111: the
  function is not called and the state stays the function, not 7.
\<close>

theorem setState_function_is_updater_counterexample:
  "nowState (example_store [] (Fun 3)) = Fun 1 \<and>
   call example_env 1 (nowState (example_store [] (Fun 3))) (heap (example_store [] (Fun 3))) =
     Normal (Num 7, []) \<and>
   setState example_env (Fun 1) False (example_store [] (Fun 3)) =
     Normal (example_store [] (Fun 3)) \<and>
   nowState (after (setState example_env (Fun 1) False (example_store [] (Fun 3)))) \<noteq> Num 7"
  by (simp add: example_defs run_defs)

section \<open>The race between the load and a local write\<close>

text \<open>
  The guard is the first listener of a store built by lines 306 to 319, so the first commit
  sets \<open>changed\<close>; nothing sets it back.
\<close>

lemma invoke_changed:
  "changed w \<Longrightarrow> changed (after (invoke env l s p w))"
  by (cases l)
     (auto simp: invoke_def write_through_def setItem_def unsubscribe_def Let_def
           split: sum.splits put_mode.splits option.splits)

lemma forEach_changed:
  "changed w \<Longrightarrow> changed (after (forEach env ls p w))"
proof (induction ls arbitrary: w)
  case Nil
  then show ?case by simp
next
  case (Cons l ls)
  show ?case
  proof (cases "l \<in> set (listeners w)")
    case False
    then show ?thesis using Cons by simp
  next
    case True
    have c: "changed (after (invoke env l (nowState w) p w))"
      using Cons.prems by (rule invoke_changed)
    show ?thesis
    proof (cases "invoke env l (nowState w) p w")
      case (Normal w')
      with c have "changed w'" by simp
      then show ?thesis using True Normal Cons.IH [of w'] by simp
    next
      case (Abrupt e w')
      with c show ?thesis using True by simp
    qed
  qed
qed

lemma forEach_guard_first:
  assumes "listeners w = ChangedGuard # ls"
  shows "changed (after (forEach env (ChangedGuard # ls) p w))"
proof -
  have "invoke env ChangedGuard (nowState w) p w =
          Normal (unsubscribe ChangedGuard
                   (w\<lparr>notified := notified w @ [(ChangedGuard, nowState w, p)], changed := True\<rparr>))"
    by (simp add: invoke_def)
  moreover have "changed (unsubscribe ChangedGuard
                   (w\<lparr>notified := notified w @ [(ChangedGuard, nowState w, p)], changed := True\<rparr>))"
    by (simp add: unsubscribe_def)
  ultimately show ?thesis using assms forEach_changed by simp
qed

lemma commit_sets_changed:
  assumes "guarded w" and "\<not> Object_is (nowState w) c"
  shows "changed (after (commit env c replace h w))"
proof (cases "changed w")
  case True
  then show ?thesis using assms(2) by (simp add: commit_def Let_def forEach_changed)
next
  case False
  with assms(1) obtain ls where ls: "listeners w = ChangedGuard # ls"
    by (auto simp: guarded_def split: list.splits)
  show ?thesis
    using assms(2) ls
      forEach_guard_first [of "w\<lparr>heap := h @ [merged h (nowState w) c], nowState := Ref (length h)\<rparr>" ls env "nowState w"]
      forEach_guard_first [of "w\<lparr>heap := h, nowState := c\<rparr>" ls env "nowState w"]
    by (simp add: commit_def Let_def)
qed

lemma setState_sets_changed:
  assumes "guarded w" and "commits env newState w"
  shows "changed (after (setState env newState replace w))"
  using assms commit_sets_changed
  by (auto simp: commits_def setState_def split: completion.splits)

lemma setState_keeps_changed:
  assumes "changed w"
  shows "changed (after (setState env newState replace w))"
  using assms
  by (auto simp: setState_def commit_def Let_def forEach_changed split: completion.splits)

lemma setState_guarded:
  assumes "guarded w"
  shows "guarded (after (setState env newState replace w))"
proof (cases "commits env newState w")
  case True
  with assms show ?thesis using setState_sets_changed by (simp add: guarded_def)
next
  case False
  then show ?thesis using assms
    by (auto simp: commits_def setState_def commit_def guarded_def split: completion.splits)
qed

lemma perform_guarded: "guarded w \<Longrightarrow> guarded (perform env a w)"
proof (cases a)
  case (SetState n r)
  assume "guarded w"
  then show ?thesis using SetState setState_guarded by simp
next
  case (Subscribe n)
  assume "guarded w"
  then show ?thesis using Subscribe
    by (auto simp: guarded_def subscribe_def split: list.splits)
next
  case (Unsubscribe n)
  assume "guarded w"
  then show ?thesis using Unsubscribe
    by (auto simp: guarded_def unsubscribe_def split: list.splits)
next
  case RemoveStorage
  assume "guarded w"
  then show ?thesis using RemoveStorage
    by (auto simp: guarded_def removeStorage_def split: completion.splits)
qed

lemma perform_keeps_changed: "changed w \<Longrightarrow> changed (perform env a w)"
  by (cases a)
     (auto simp: setState_keeps_changed subscribe_def unsubscribe_def removeStorage_def
           split: completion.splits)

lemma run_keeps_changed: "changed w \<Longrightarrow> changed (run env as w)"
  by (induction as arbitrary: w) (simp_all add: perform_keeps_changed)

lemma run_sets_changed:
  "guarded w \<Longrightarrow> some_commit env as w \<Longrightarrow> changed (run env as w)"
proof (induction as arbitrary: w)
  case Nil
  then show ?case by simp
next
  case (Cons a as)
  have g: "guarded (perform env a w)" using Cons.prems(1) by (rule perform_guarded)
  show ?case
  proof (cases a)
    case (SetState n r)
    show ?thesis
    proof (cases "commits env n w")
      case True
      then have "changed (perform env a w)"
        using Cons.prems(1) SetState setState_sets_changed by simp
      then show ?thesis using run_keeps_changed by simp
    next
      case False
      then show ?thesis using Cons.IH [OF g] Cons.prems(2) SetState by simp
    qed
  qed (use Cons.IH [OF g] Cons.prems(2) in simp_all)
qed

lemma store_from_init_guarded:
  assumes "store_from_init env init w = Normal w1" and "\<not> changed w"
  shows "guarded w1"
  using assms
  by (auto simp: store_from_init_def createStore_def write_through_def subscribe_def
                 guarded_def getState_def
           split: completion.splits sum.splits)

lemma setState_without_commit:
  "\<not> commits env newState w \<Longrightarrow> changed (after (setState env newState replace w)) = changed w"
  by (auto simp: commits_def setState_def commit_def split: completion.splits)

lemma run_without_commit:
  "\<not> some_commit env as w \<Longrightarrow> changed (run env as w) = changed w"
proof (induction as arbitrary: w)
  case Nil
  show ?case by simp
next
  case (Cons a as)
  show ?case
  proof (cases a)
    case (SetState n r)
    then show ?thesis
      using Cons.prems Cons.IH [of "perform env a w"] setState_without_commit [of env n w r]
      by simp
  next
    case (Subscribe n)
    then show ?thesis
      using Cons.prems Cons.IH [of "perform env a w"] by (simp add: subscribe_def)
  next
    case (Unsubscribe n)
    then show ?thesis
      using Cons.prems Cons.IH [of "perform env a w"] by (simp add: unsubscribe_def)
  next
    case RemoveStorage
    then show ?thesis
      using Cons.prems Cons.IH [of "perform env a w"]
      by (simp add: removeStorage_def split: completion.splits)
  qed
qed

lemma store_from_init_unchanged:
  "store_from_init env init w = Normal w1 \<Longrightarrow> changed w1 = changed w"
  by (auto simp: store_from_init_def createStore_def write_through_def subscribe_def getState_def
           split: completion.splits sum.splits)

text \<open>
  C4. For a persistent store on a backend whose \<open>getItem\<close> returns a promise: if, among
  whatever the client does with the store before the promise is fulfilled, some call of
  \<open>setState\<close> commits, then the callback run at fulfilment discards the snapshot, whatever
  it is: the world, and so the state set locally, is what it was before.
\<close>

theorem local_commit_wins:
  assumes "getItem_mode (backend w0) = GetPromise"
    and "createPersistentStore env init w0 = Normal w1"
    and "some_commit env acts w1"
  shows "getItem_fulfilled env snapshot (run env acts w1) = run env acts w1"
proof -
  have "store_from_init env init
          (w0\<lparr>backend := (backend w0)\<lparr>journal := journal (backend w0) @ [GetItem (storageKey env)]\<rparr>,
              changed := False\<rparr>) = Normal w1"
    using assms(1,2) by (simp add: createPersistentStore_def getItem_def)
  then have "guarded w1" by (rule store_from_init_guarded) simp
  then have "changed (run env acts w1)" using assms(3) by (rule run_sets_changed)
  then show ?thesis by (simp add: getItem_fulfilled_def then_callback_def)
qed

text \<open>
  A store built with initial state 0; \<^verbatim>\<open>setState(6)\<close>; then the promise is fulfilled with
  the snapshot \<open>5\<close>: the state stays 6.
\<close>

theorem local_commit_wins_witness:
  "getItem_mode (backend (host [] (example_storage [] GetPromise))) = GetPromise \<and>
   createPersistentStore example_env (Num 0) (host [] (example_storage [] GetPromise)) =
     Normal example_async_store \<and>
   some_commit example_env [SetState (Num 6) False] example_async_store \<and>
   nowState (run example_env [SetState (Num 6) False] example_async_store) = Num 6 \<and>
   getItem_fulfilled example_env (Some ''5'') (run example_env [SetState (Num 6) False] example_async_store) =
     run example_env [SetState (Num 6) False] example_async_store"
proof -
  have a: "getItem_mode (backend (host [] (example_storage [] GetPromise))) = GetPromise"
    by (simp add: example_defs)
  have b: "createPersistentStore example_env (Num 0) (host [] (example_storage [] GetPromise)) =
             Normal example_async_store"
    by (simp add: example_async_store_def example_defs persist_defs run_defs)
  have c: "some_commit example_env [SetState (Num 6) False] example_async_store"
    by (simp add: example_async_store_def example_defs persist_defs run_defs)
  have d: "nowState (run example_env [SetState (Num 6) False] example_async_store) = Num 6"
    by (simp add: example_async_store_def example_defs persist_defs run_defs)
  show ?thesis using local_commit_wins [OF a b c, of "Some ''5''"] a b c d by simp
qed

section \<open>Loading at construction\<close>

text \<open>
  C5, as amended. When the backend answers directly with a string for the store's key and
  the deserializer throws on it: if \<open>removeItem\<close> and \<open>setItem\<close> succeed and \<open>init\<close> and
  the serializer do not throw, \<open>createPersistentStore\<close> returns a store, its state is the
  caller's initial state, the error is logged, \<open>removeItem\<close> is called for the key and
  deletes the entry, and then the initial state is written through under the key; if
  \<open>removeItem\<close> throws, \<open>createPersistentStore\<close> throws that exception, logs nothing and
  leaves the entry.
\<close>

theorem corrupt_entry_falls_back:
  assumes "getItem_mode (backend w0) = GetReturns"
    and "map_of (items (backend w0)) (storageKey env) = Some str"
    and "parse env str (heap w0) = Abrupt e h"
  shows "(removeItem_mode (backend w0) = PutSucceeds \<and> setItem_mode (backend w0) = PutSucceeds \<and>
          initial_state env init h = Normal (v, h') \<and> stringify env h' v = Inr s \<longrightarrow>
            (\<exists>w. createPersistentStore env init w0 = Normal w \<and>
                 nowState w = v \<and>
                 console w = console w0 @ [e] \<and>
                 journal (backend w) =
                   journal (backend w0) @
                     [GetItem (storageKey env), RemoveItem (storageKey env),
                      SetItem (storageKey env) s] \<and>
                 items (backend w) =
                   AList.update (storageKey env) s
                     (AList.delete (storageKey env) (items (backend w0))) \<and>
                 map_of (items (backend w)) (storageKey env) = Some s \<and>
                 listeners w = [ChangedGuard, WriteThrough] \<and>
                 \<not> changed w)) \<and>
         (\<forall>e'. removeItem_mode (backend w0) = PutThrows e' \<longrightarrow>
            thrown (createPersistentStore env init w0) = Some e' \<and>
            console (after (createPersistentStore env init w0)) = console w0 \<and>
            items (backend (after (createPersistentStore env init w0))) = items (backend w0))"
  using assms
  by (simp add: createPersistentStore_def getItem_def try_parse_def removeItem_def
        store_from_init_def createStore_def getState_def write_through_def setItem_def
        subscribe_def update_conv')

theorem corrupt_entry_falls_back_witness:
  "getItem_mode (backend (host [] (example_corrupt_storage PutSucceeds))) = GetReturns \<and>
   map_of (items (backend (host [] (example_corrupt_storage PutSucceeds))))
     (storageKey example_env) = Some ''{a:'' \<and>
   parse example_env ''{a:'' (heap (host [] (example_corrupt_storage PutSucceeds))) =
     Abrupt (Str ''SyntaxError'') [] \<and>
   initial_state example_env (Num 5) [] = Normal (Num 5, []) \<and>
   stringify example_env [] (Num 5) = Inr ''5'' \<and>
   (\<exists>w. createPersistentStore example_env (Num 5) (host [] (example_corrupt_storage PutSucceeds)) =
          Normal w \<and>
        nowState w = Num 5 \<and>
        console w = [Str ''SyntaxError''] \<and>
        journal (backend w) =
          [GetItem ''react-soda-x'', RemoveItem ''react-soda-x'', SetItem ''react-soda-x'' ''5''] \<and>
        items (backend w) = [(''react-soda-x'', ''5'')]) \<and>
   getItem_mode (backend (host [] (example_corrupt_storage (PutThrows (Str ''SecurityError''))))) =
     GetReturns \<and>
   thrown (createPersistentStore example_env (Num 5)
             (host [] (example_corrupt_storage (PutThrows (Str ''SecurityError''))))) =
     Some (Str ''SecurityError'')"
proof -
  let ?w0 = "host [] (example_corrupt_storage PutSucceeds)"
  let ?w1 = "host [] (example_corrupt_storage (PutThrows (Str ''SecurityError'')))"
  have a: "getItem_mode (backend ?w0) = GetReturns"
    by (simp add: example_corrupt_storage_def example_defs)
  have b: "map_of (items (backend ?w0)) (storageKey example_env) = Some ''{a:''"
    by (simp add: example_corrupt_storage_def example_defs)
  have c: "parse example_env ''{a:'' (heap ?w0) = Abrupt (Str ''SyntaxError'') []"
    by (simp add: example_defs)
  have d: "removeItem_mode (backend ?w0) = PutSucceeds"
    by (simp add: example_corrupt_storage_def example_defs)
  have e: "setItem_mode (backend ?w0) = PutSucceeds"
    by (simp add: example_corrupt_storage_def example_defs)
  have f: "initial_state example_env (Num 5) [] = Normal (Num 5, [])" by (simp add: example_defs)
  have g: "stringify example_env [] (Num 5) = Inr ''5''" by (simp add: example_defs)
  have k: "storageKey example_env = ''react-soda-x''" "console ?w0 = []"
    "journal (backend ?w0) = []" "items (backend ?w0) = [(''react-soda-x'', ''{a:'')]"
    by (simp_all add: example_corrupt_storage_def example_defs)
  have "\<exists>w. createPersistentStore example_env (Num 5) ?w0 = Normal w \<and>
          nowState w = Num 5 \<and>
          console w = [Str ''SyntaxError''] \<and>
          journal (backend w) =
            [GetItem ''react-soda-x'', RemoveItem ''react-soda-x'', SetItem ''react-soda-x'' ''5''] \<and>
          items (backend w) = [(''react-soda-x'', ''5'')] \<and>
          map_of (items (backend w)) ''react-soda-x'' = Some ''5'' \<and>
          listeners w = [ChangedGuard, WriteThrough] \<and> \<not> changed w"
    using corrupt_entry_falls_back [OF a b c, of "Num 5" "Num 5" "[]" "''5''"] d e f g
    by (simp add: k)
  then have first: "\<exists>w. createPersistentStore example_env (Num 5) ?w0 = Normal w \<and>
          nowState w = Num 5 \<and>
          console w = [Str ''SyntaxError''] \<and>
          journal (backend w) =
            [GetItem ''react-soda-x'', RemoveItem ''react-soda-x'', SetItem ''react-soda-x'' ''5''] \<and>
          items (backend w) = [(''react-soda-x'', ''5'')]"
    by blast
  have a': "getItem_mode (backend ?w1) = GetReturns"
    by (simp add: example_corrupt_storage_def example_defs)
  have b': "map_of (items (backend ?w1)) (storageKey example_env) = Some ''{a:''"
    by (simp add: example_corrupt_storage_def example_defs)
  have c': "parse example_env ''{a:'' (heap ?w1) = Abrupt (Str ''SyntaxError'') []"
    by (simp add: example_defs)
  have d': "removeItem_mode (backend ?w1) = PutThrows (Str ''SecurityError'')"
    by (simp add: example_corrupt_storage_def example_defs)
  have second: "thrown (createPersistentStore example_env (Num 5) ?w1) = Some (Str ''SecurityError'')"
    using corrupt_entry_falls_back [OF a' b' c', of "Num 5"] d' by blast
  show ?thesis using a b c f g first a' second by simp
qed

text \<open>
  The claim as stated has construction never throw on an entry that does not parse. Line
  290 calls \<open>removeItem\<close> inside the \<^verbatim>\<open>catch\<close> block, under no \<^verbatim>\<open>try\<close> of its own: when it
  throws, \<open>createPersistentStore\<close> throws, no store is built and the entry is still there.
\<close>

theorem corrupt_entry_falls_back_counterexample:
  "getItem_mode (example_corrupt_storage (PutThrows (Str ''SecurityError''))) = GetReturns \<and>
   map_of (items (example_corrupt_storage (PutThrows (Str ''SecurityError'')))) ''react-soda-x'' =
     Some ''{a:'' \<and>
   parse example_env ''{a:'' [] = Abrupt (Str ''SyntaxError'') [] \<and>
   thrown (createPersistentStore example_env (Num 5)
             (host [] (example_corrupt_storage (PutThrows (Str ''SecurityError''))))) =
     Some (Str ''SecurityError'') \<and>
   items (backend (after (createPersistentStore example_env (Num 5)
             (host [] (example_corrupt_storage (PutThrows (Str ''SecurityError''))))))) =
     [(''react-soda-x'', ''{a:'')]"
  by (simp add: example_corrupt_storage_def example_defs persist_defs run_defs)

lemma settled_frame:
  "nowState (case X of Normal w' \<Rightarrow> w' | Abrupt e w' \<Rightarrow> catch_callback e w') = nowState (after X) \<and>
   heap (case X of Normal w' \<Rightarrow> w' | Abrupt e w' \<Rightarrow> catch_callback e w') = heap (after X)"
  by (cases X) (simp_all add: catch_callback_def)

lemma fulfilled_applies_setState:
  assumes "\<not> changed w"
    and "parse env s (heap w) = Normal (data, h)"
    and "\<not> is_function data"
    and "\<not> Object_is (nowState w) data"
  shows "getItem_fulfilled env (Some s) w =
           (case setState env data False (w\<lparr>heap := h\<rparr>) of
              Normal w' \<Rightarrow> w'
            | Abrupt e w' \<Rightarrow> catch_callback e w') \<and>
         nowState (getItem_fulfilled env (Some s) w) =
           (if isPlainObject h (nowState w) \<and> isPlainObject h data
            then Ref (length h) else data) \<and>
         heap (getItem_fulfilled env (Some s) w) =
           (if isPlainObject h (nowState w) \<and> isPlainObject h data
            then h @ [merged h (nowState w) data] else h)"
proof -
  let ?w = "w\<lparr>heap := h\<rparr>"
  have applied: "getItem_fulfilled env (Some s) w =
           (case setState env data False ?w of
              Normal w' \<Rightarrow> w'
            | Abrupt e w' \<Rightarrow> catch_callback e w')"
    using assms(1,2) by (simp add: getItem_fulfilled_def then_callback_def try_parse_def)
  have cand: "nextState_of env data ?w = Normal (data, h)"
    using assms(3) by (cases data) (simp_all add: nextState_of_def)
  have differs: "\<not> Object_is (nowState ?w) data" using assms(4) by simp
  have eq: "setState env data False ?w = commit env data False h ?w"
    using differs cand by (rule setState_commits)
  have "nowState (after (commit env data False h ?w)) =
          (if isPlainObject h (nowState w) \<and> isPlainObject h data then Ref (length h) else data)"
    and "heap (after (commit env data False h ?w)) =
          (if isPlainObject h (nowState w) \<and> isPlainObject h data
           then h @ [merged h (nowState w) data] else h)"
    using commit_assigns(1,2) [OF differs, of env False h] by simp_all
  then show ?thesis
    using applied settled_frame [of "setState env data False ?w"] by (simp add: eq)
qed

text \<open>
  C6. The claim has the state equal the persisted snapshot once the promise of \<open>getItem\<close> is
  fulfilled, no commit having happened. Line 277 applies the data with
  \<^verbatim>\<open>setState(data)\<close>, \<open>replace\<close> unset, so plain data is merged into a plain initial
  state. With the initial state \<^verbatim>\<open>{a:1,b:2}\<close> on a backend that holds \<open>{a:5}\<close>: when
  \<open>getItem\<close> answers directly, line 294 makes the state the parsed snapshot \<^verbatim>\<open>{a:5}\<close>
  itself; when it answers with a promise, fulfilled before any commit, the state is a third
  object, \<^verbatim>\<open>{a:5,b:2}\<close>, in which the key \<open>b\<close> of the initial state survives the load.
\<close>

theorem late_snapshot_merged_into_initial_state:
  "createPersistentStore example_env (Ref 0)
     (host [obj_a1b2] (example_storage [(''react-soda-x'', ''{a:5}'')] GetPromise)) =
     Normal example_async_record_store \<and>
   \<not> changed example_async_record_store \<and>
   nowState example_async_record_store = Ref 0 \<and>
   heap example_async_record_store = [obj_a1b2] \<and>
   parse example_env ''{a:5}'' (heap example_async_record_store) =
     Normal (Ref 1, [obj_a1b2, \<lparr>proto = ObjectPrototype, props = [(''a'', Num 5)]\<rparr>]) \<and>
   nowState (getItem_fulfilled example_env (Some ''{a:5}'') example_async_record_store) = Ref 2 \<and>
   heap (getItem_fulfilled example_env (Some ''{a:5}'') example_async_record_store) =
     [obj_a1b2, \<lparr>proto = ObjectPrototype, props = [(''a'', Num 5)]\<rparr>,
      \<lparr>proto = ObjectPrototype, props = [(''a'', Num 5), (''b'', Num 2)]\<rparr>] \<and>
   props_of (heap (getItem_fulfilled example_env (Some ''{a:5}'') example_async_record_store))
     (nowState (getItem_fulfilled example_env (Some ''{a:5}'') example_async_record_store)) \<noteq>
   props_of (heap (getItem_fulfilled example_env (Some ''{a:5}'') example_async_record_store)) (Ref 1) \<and>
   createPersistentStore example_env (Ref 0)
     (host [obj_a1b2] (example_storage [(''react-soda-x'', ''{a:5}'')] GetReturns)) =
     Normal example_sync_record_store \<and>
   nowState example_sync_record_store = Ref 1 \<and>
   heap example_sync_record_store =
     [obj_a1b2, \<lparr>proto = ObjectPrototype, props = [(''a'', Num 5)]\<rparr>]"
  by (simp add: example_async_record_store_def example_sync_record_store_def example_defs
        persist_defs run_defs)

text \<open>
  C8, as amended. With \<open>init\<close>, the serializer and \<open>setItem\<close> not throwing: when \<open>getItem\<close>
  returns a promise, construction returns a store with the caller's initial state and logs
  nothing, and a later rejection of the promise only logs the error, leaving the store as
  it is; when \<open>getItem\<close> throws synchronously, \<open>createPersistentStore\<close> throws that
  exception and logs nothing.
\<close>

theorem initial_read_failure:
  assumes "initial_state env init (heap w0) = Normal (v, h)"
    and "write_through_fails env h v (backend w0) = None"
  shows "(getItem_mode (backend w0) = GetPromise \<longrightarrow>
            (\<exists>w1. createPersistentStore env init w0 = Normal w1 \<and>
                  nowState w1 = v \<and> console w1 = console w0)) \<and>
         getItem_rejected error w = w\<lparr>console := console w @ [error]\<rparr> \<and>
         (\<forall>e. getItem_mode (backend w0) = GetThrows e \<longrightarrow>
            thrown (createPersistentStore env init w0) = Some e \<and>
            console (after (createPersistentStore env init w0)) = console w0)"
  using assms
  by (auto simp: createPersistentStore_def getItem_def store_from_init_def createStore_def
                 getState_def write_through_def write_through_fails_def setItem_def subscribe_def
                 getItem_rejected_def catch_callback_def Let_def
           split: sum.splits put_mode.splits)

theorem initial_read_failure_witness:
  "initial_state example_env (Num 0) (heap (host [] (example_storage [] GetPromise))) =
     Normal (Num 0, []) \<and>
   write_through_fails example_env [] (Num 0) (backend (host [] (example_storage [] GetPromise))) = None \<and>
   getItem_mode (backend (host [] (example_storage [] GetPromise))) = GetPromise \<and>
   createPersistentStore example_env (Num 0) (host [] (example_storage [] GetPromise)) =
     Normal example_async_store \<and>
   nowState example_async_store = Num 0 \<and>
   console example_async_store = [] \<and>
   nowState (getItem_rejected (Str ''NetworkError'') example_async_store) = Num 0 \<and>
   console (getItem_rejected (Str ''NetworkError'') example_async_store) = [Str ''NetworkError''] \<and>
   getItem_mode (backend (host [] (example_storage [] (GetThrows (Str ''SecurityError''))))) =
     GetThrows (Str ''SecurityError'') \<and>
   thrown (createPersistentStore example_env (Num 0)
            (host [] (example_storage [] (GetThrows (Str ''SecurityError''))))) =
     Some (Str ''SecurityError'')"
proof -
  let ?w0 = "host [] (example_storage [] GetPromise)"
  let ?w0' = "host [] (example_storage [] (GetThrows (Str ''SecurityError'')))"
  have a: "initial_state example_env (Num 0) (heap ?w0) = Normal (Num 0, [])"
    by (simp add: example_defs)
  have b: "write_through_fails example_env [] (Num 0) (backend ?w0) = None"
    by (simp add: write_through_fails_def example_defs)
  have c: "getItem_mode (backend ?w0) = GetPromise" by (simp add: example_defs)
  have d: "createPersistentStore example_env (Num 0) ?w0 = Normal example_async_store"
    by (simp add: example_async_store_def example_defs persist_defs run_defs)
  have e: "nowState example_async_store = Num 0" "console example_async_store = []"
    using initial_read_failure [OF a b, of "Str ''NetworkError''" example_async_store] c d
    by (simp_all add: example_defs)
  have f: "getItem_rejected (Str ''NetworkError'') example_async_store =
             example_async_store\<lparr>console := console example_async_store @ [Str ''NetworkError'']\<rparr>"
    using initial_read_failure [OF a b, of "Str ''NetworkError''" example_async_store]
    by simp
  have a': "initial_state example_env (Num 0) (heap ?w0') = Normal (Num 0, [])"
    by (simp add: example_defs)
  have b': "write_through_fails example_env [] (Num 0) (backend ?w0') = None"
    by (simp add: write_through_fails_def example_defs)
  have c': "getItem_mode (backend ?w0') = GetThrows (Str ''SecurityError'')"
    by (simp add: example_defs)
  have g: "thrown (createPersistentStore example_env (Num 0) ?w0') = Some (Str ''SecurityError'')"
    using initial_read_failure [OF a' b', of "Str ''NetworkError''" example_async_store] c'
    by blast
  show ?thesis using a b c d e f c' g by simp
qed

text \<open>
  The claim as stated has a synchronously throwing \<open>getItem\<close> recovered. Line 261 is
  outside every \<^verbatim>\<open>try\<close>: the exception leaves \<open>createPersistentStore\<close>, no store is built
  and nothing is logged.
\<close>

theorem initial_read_failure_counterexample:
  "thrown (createPersistentStore example_env (Num 0)
             (host [] (example_storage [] (GetThrows (Str ''SecurityError''))))) =
     Some (Str ''SecurityError'') \<and>
   console (after (createPersistentStore example_env (Num 0)
             (host [] (example_storage [] (GetThrows (Str ''SecurityError'')))))) = [] \<and>
   nowState (after (createPersistentStore example_env (Num 0)
             (host [] (example_storage [] (GetThrows (Str ''SecurityError'')))))) = Undefined"
  by (simp add: example_defs persist_defs run_defs)

section \<open>The write-through of every commit\<close>

text \<open>
  The iteration over the listeners ends with the first exception a listener throws, and
  normally when none throws.
\<close>

lemma write_through_fails_None:
  "write_through env s w = Normal w' \<Longrightarrow>
   write_through_fails env (heap w) s (backend w) = None \<and>
   write_through_fails env h' s' (backend w') = write_through_fails env h' s' (backend w) \<and>
   listeners w' = listeners w \<and> nowState w' = nowState w \<and> heap w' = heap w"
  by (auto simp: write_through_def write_through_fails_def setItem_def Let_def
           split: sum.splits put_mode.splits)

lemma write_through_fails_Some:
  "write_through env s w = Abrupt e w' \<Longrightarrow>
   write_through_fails env (heap w) s (backend w) = Some e"
  by (auto simp: write_through_def write_through_fails_def setItem_def Let_def
           split: sum.splits put_mode.splits)

lemma write_through_thrown:
  "thrown (write_through env s w) = write_through_fails env (heap w) s (backend w)"
  by (auto simp: write_through_def write_through_fails_def setItem_def Let_def
           split: sum.splits put_mode.splits)

lemma first_failure_mode:
  "setItem_mode st' = setItem_mode st \<Longrightarrow>
   first_failure env h st' state prev ls = first_failure env h st state prev ls"
proof (induction ls)
  case Nil
  show ?case by simp
next
  case (Cons l ls)
  have "listener_fails env h st' state prev l = listener_fails env h st state prev l"
    using Cons.prems by (cases l) (simp_all add: write_through_fails_def split: sum.splits)
  moreover have "first_failure env h st' state prev ls = first_failure env h st state prev ls"
    using Cons by simp
  ultimately show ?case by (simp only: first_failure.simps)
qed

lemma forEach_thrown:
  assumes "\<forall>l \<in> set ls. l \<in> set (listeners w) \<or> l = ChangedGuard"
  shows "thrown (forEach env ls p w) = first_failure env (heap w) (backend w) (nowState w) p ls"
  using assms
proof (induction ls arbitrary: w)
  case Nil
  show ?case by simp
next
  case (Cons l ls)
  have rest: "\<forall>l' \<in> set ls. l' \<in> set (listeners w) \<or> l' = ChangedGuard"
    using Cons.prems by simp
  show ?case
  proof (cases "l \<in> set (listeners w)")
    case False
    then have "l = ChangedGuard" using Cons.prems by simp
    then show ?thesis using False Cons.IH [OF rest] by simp
  next
    case True
    show ?thesis
    proof (cases l)
      case (Subscriber n)
      let ?w' = "w\<lparr>notified := notified w @ [(l, nowState w, p)]\<rparr>"
      show ?thesis
      proof (cases "client env n (heap w) (nowState w) p")
        case None
        then have "invoke env l (nowState w) p w = Normal ?w'"
          using Subscriber by (simp add: invoke_def)
        moreover have "\<forall>l' \<in> set ls. l' \<in> set (listeners ?w') \<or> l' = ChangedGuard"
          using rest by simp
        ultimately show ?thesis using True Subscriber None Cons.IH [of ?w'] by simp
      next
        case (Some e)
        then have "invoke env l (nowState w) p w = Abrupt e ?w'"
          using Subscriber by (simp add: invoke_def)
        then show ?thesis using True Subscriber Some by simp
      qed
    next
      case ChangedGuard
      let ?w' = "unsubscribe ChangedGuard
                   (w\<lparr>notified := notified w @ [(l, nowState w, p)], changed := True\<rparr>)"
      have "invoke env l (nowState w) p w = Normal ?w'"
        using ChangedGuard by (simp add: invoke_def)
      moreover have "\<forall>l' \<in> set ls. l' \<in> set (listeners ?w') \<or> l' = ChangedGuard"
        using rest by (auto simp: unsubscribe_def)
      moreover have "heap ?w' = heap w" "nowState ?w' = nowState w" "backend ?w' = backend w"
        by (simp_all add: unsubscribe_def)
      ultimately show ?thesis using True ChangedGuard Cons.IH [of ?w'] by simp
    next
      case WriteThrough
      let ?w1 = "w\<lparr>notified := notified w @ [(l, nowState w, p)]\<rparr>"
      have inv: "invoke env l (nowState w) p w = write_through env (nowState w) ?w1"
        using WriteThrough by (simp add: invoke_def)
      show ?thesis
      proof (cases "write_through env (nowState w) ?w1")
        case (Normal w')
        from write_through_fails_None [OF Normal, of "heap w" "nowState w"]
        have none: "write_through_fails env (heap w) (nowState w) (backend w) = None"
          and same: "listeners w' = listeners w" "nowState w' = nowState w" "heap w' = heap w"
          by simp_all
        have mode: "setItem_mode (backend w') = setItem_mode (backend w)"
          using Normal
          by (auto simp: write_through_def setItem_def Let_def split: sum.splits put_mode.splits)
        have "\<forall>l' \<in> set ls. l' \<in> set (listeners w') \<or> l' = ChangedGuard"
          using rest same(1) by simp
        then have "thrown (forEach env ls p w') =
                     first_failure env (heap w) (backend w) (nowState w) p ls"
          using Cons.IH [of w'] same first_failure_mode [OF mode] by simp
        then show ?thesis using True WriteThrough inv Normal none by simp
      next
        case (Abrupt e w')
        from write_through_fails_Some [OF Abrupt]
        show ?thesis using True WriteThrough inv Abrupt by simp
      qed
    qed
  qed
qed

text \<open>
  Every store \<open>createPersistentStore\<close> returns has the write-through subscribed, and
  nothing the client does removes it.
\<close>

lemma invoke_keeps_write_through:
  "WriteThrough \<in> set (listeners w) \<Longrightarrow>
   WriteThrough \<in> set (listeners (after (invoke env l s p w)))"
  by (cases l)
     (auto simp: invoke_def write_through_def setItem_def unsubscribe_def Let_def
           split: sum.splits put_mode.splits option.splits)

lemma forEach_keeps_write_through:
  "WriteThrough \<in> set (listeners w) \<Longrightarrow>
   WriteThrough \<in> set (listeners (after (forEach env ls p w)))"
proof (induction ls arbitrary: w)
  case Nil
  then show ?case by simp
next
  case (Cons l ls)
  show ?case
  proof (cases "l \<in> set (listeners w)")
    case False
    then show ?thesis using Cons by simp
  next
    case True
    have k: "WriteThrough \<in> set (listeners (after (invoke env l (nowState w) p w)))"
      using Cons.prems by (rule invoke_keeps_write_through)
    show ?thesis
    proof (cases "invoke env l (nowState w) p w")
      case (Normal w')
      with k have "WriteThrough \<in> set (listeners w')" by simp
      then show ?thesis using True Normal Cons.IH [of w'] by simp
    next
      case (Abrupt e w')
      with k show ?thesis using True by simp
    qed
  qed
qed

lemma setState_keeps_write_through:
  "WriteThrough \<in> set (listeners w) \<Longrightarrow>
   WriteThrough \<in> set (listeners (after (setState env newState replace w)))"
  by (auto simp: setState_def commit_def Let_def forEach_keeps_write_through
           split: completion.splits)

lemma perform_keeps_write_through:
  "WriteThrough \<in> set (listeners w) \<Longrightarrow> WriteThrough \<in> set (listeners (perform env a w))"
  by (cases a)
     (auto simp: setState_keeps_write_through subscribe_def unsubscribe_def removeStorage_def
           split: completion.splits)

lemma run_keeps_write_through:
  "WriteThrough \<in> set (listeners w) \<Longrightarrow> WriteThrough \<in> set (listeners (run env as w))"
  by (induction as arbitrary: w) (simp_all add: perform_keeps_write_through)

lemma createPersistentStore_writes_through:
  assumes "createPersistentStore env init w0 = Normal w1"
  shows "WriteThrough \<in> set (listeners (run env as w1))"
proof -
  have "WriteThrough \<in> set (listeners w1)"
    using assms
    by (auto simp: createPersistentStore_def store_from_init_def store_from_data_def
                   subscribe_def Let_def
             split: completion.splits got.splits option.splits if_splits)
  then show ?thesis by (rule run_keeps_write_through)
qed

text \<open>
  C7, as amended. \<open>setState\<close> catches nothing. A committing call throws the first
  exception that a listener throws, in the order of subscription (for the write-through of
  a persistent store: what the serializer or \<open>setItem\<close> throws synchronously), and returns
  normally when no listener throws, also when \<open>setItem\<close> returns a promise that is
  rejected; either way the committed state stays and nothing is logged. The listeners of the
  client are taken not to call back into the store.
\<close>

theorem write_through_failure_propagates:
  assumes "\<not> Object_is (nowState w) newState"
    and "nextState_of env newState w = Normal (c, h)"
    and "\<not> Object_is (nowState w) c"
  shows "thrown (setState env newState replace w) =
           first_failure env (heap (after (setState env newState replace w))) (backend w)
             (nowState (after (setState env newState replace w))) (nowState w) (listeners w) \<and>
         nowState (after (setState env newState replace w)) =
           (if isPlainObject h (nowState w) \<and> isPlainObject h c \<and> \<not> replace
            then Ref (length h) else c) \<and>
         console (after (setState env newState replace w)) = console w"
proof -
  have eq: "setState env newState replace w = commit env c replace h w"
    using assms(1,2) by (rule setState_commits)
  have "thrown (commit env c replace h w) =
          first_failure env (heap (after (commit env c replace h w))) (backend w)
            (nowState (after (commit env c replace h w))) (nowState w) (listeners w)"
    using assms(3) commit_assigns(1,2) [OF assms(3), of env replace h]
    by (simp add: commit_def Let_def forEach_thrown)
  then show ?thesis
    unfolding eq using commit_assigns(1,3) [OF assms(3), of env replace h] by simp
qed

text \<open>
  On a persistent store whose write-through works and returns, \<^verbatim>\<open>setState(6)\<close> returns; with
  a listener of the client that throws subscribed as well, it throws that listener's
  exception. The state is 6 in both cases.
\<close>

theorem write_through_failure_propagates_witness:
  "\<not> Object_is (nowState example_sync_store) (Num 6) \<and>
   nextState_of example_env (Num 6) example_sync_store = Normal (Num 6, []) \<and>
   listeners example_sync_store = [ChangedGuard, WriteThrough] \<and>
   thrown (setState example_env (Num 6) False example_sync_store) = None \<and>
   nowState (after (setState example_env (Num 6) False example_sync_store)) = Num 6 \<and>
   console (after (setState example_env (Num 6) False example_sync_store)) = [] \<and>
   \<not> Object_is (nowState (subscribe (Subscriber 13) example_sync_store)) (Num 6) \<and>
   nextState_of example_env (Num 6) (subscribe (Subscriber 13) example_sync_store) =
     Normal (Num 6, []) \<and>
   thrown (setState example_env (Num 6) False (subscribe (Subscriber 13) example_sync_store)) =
     Some (Str ''Error'') \<and>
   nowState (after (setState example_env (Num 6) False (subscribe (Subscriber 13) example_sync_store))) =
     Num 6"
proof -
  let ?w = "example_sync_store" and ?v = "subscribe (Subscriber 13) example_sync_store"
  have b: "\<not> Object_is (nowState ?w) (Num 6)"
    by (simp add: example_sync_store_def example_defs persist_defs run_defs)
  have c: "nextState_of example_env (Num 6) ?w = Normal (Num 6, [])"
    by (simp add: example_sync_store_def example_defs persist_defs run_defs)
  have l: "listeners ?w = [ChangedGuard, WriteThrough]"
    by (simp add: example_sync_store_def example_defs persist_defs run_defs)
  have d: "write_through_fails example_env h (Num 6) (backend ?w) = None" for h
    by (simp add: write_through_fails_def example_sync_store_def example_defs persist_defs run_defs)
  have e: "console ?w = []"
    by (simp add: example_sync_store_def example_defs persist_defs run_defs)
  have b': "\<not> Object_is (nowState ?v) (Num 6)" using b by (simp add: subscribe_def)
  have c': "nextState_of example_env (Num 6) ?v = Normal (Num 6, [])"
    using c by (simp add: subscribe_def nextState_of_def)
  have l': "listeners ?v = [ChangedGuard, WriteThrough, Subscriber 13]"
    using l by (simp add: subscribe_def)
  have d': "backend ?v = backend ?w" by (simp add: subscribe_def)
  have f: "client example_env 13 h (Num 6) p = Some (Str ''Error'')" for h p
    by (simp add: example_defs)
  have first: "thrown (setState example_env (Num 6) False ?w) = None \<and>
               nowState (after (setState example_env (Num 6) False ?w)) = Num 6 \<and>
               console (after (setState example_env (Num 6) False ?w)) = []"
    using write_through_failure_propagates [OF b c b, of False] l d e by simp
  have second: "thrown (setState example_env (Num 6) False ?v) = Some (Str ''Error'') \<and>
                nowState (after (setState example_env (Num 6) False ?v)) = Num 6"
    using write_through_failure_propagates [OF b' c' b', of False] l' d d' f by simp
  show ?thesis using b c l first b' c' second by simp
qed

text \<open>
  The claim as stated has no exception leave \<open>setState\<close>. Once \<open>setItem\<close> throws (the
  backend is full), \<^verbatim>\<open>setState(6)\<close> throws that exception; the state is 6 all the same and
  the console is empty.
\<close>

theorem write_through_failure_propagates_counterexample:
  "listeners (storage_full example_sync_store) = [ChangedGuard, WriteThrough] \<and>
   nowState (storage_full example_sync_store) = Num 5 \<and>
   setItem_mode (backend (storage_full example_sync_store)) = PutThrows (Str ''QuotaExceededError'') \<and>
   thrown (setState example_env (Num 6) False (storage_full example_sync_store)) =
     Some (Str ''QuotaExceededError'') \<and>
   nowState (after (setState example_env (Num 6) False (storage_full example_sync_store))) = Num 6 \<and>
   console (after (setState example_env (Num 6) False (storage_full example_sync_store))) = []"
  by (simp add: storage_full_def example_sync_store_def example_defs persist_defs run_defs)

section \<open>Where the earlier revision differs\<close>

text \<open>
  The first identity test is the same in both revisions. After it, the earlier \<^verbatim>\<open>write\<close>
  merges into a plain previous state also a candidate that is not a plain object: from
  \<^verbatim>\<open>{a:1}\<close>, \<^verbatim>\<open>write(5)\<close> yields a copy of \<^verbatim>\<open>{a:1}\<close>.
\<close>

lemma write_earlier_identical:
  "Object_is (nowState w) newState \<Longrightarrow> write_earlier env newState w = Normal w"
  by (simp add: write_earlier_def)

lemma write_earlier_merges_atomic_candidate:
  assumes "isPlainObject (heap w) (nowState w)"
    and "\<not> is_function newState"
    and "\<not> Object_is (nowState w) newState"
  shows "nowState (after (write_earlier env newState w)) = Ref (length (heap w)) \<and>
         heap (after (write_earlier env newState w)) =
           heap w @ [Object_assign (heap w)
                       (Object_assign (heap w) \<lparr>proto = ObjectPrototype, props = []\<rparr>
                          (own_props (heap w) (nowState w)))
                       (own_props (heap w) newState)]"
proof -
  have "nextState_of env newState w = Normal (newState, heap w)"
    using assms(2) by (cases newState) (simp_all add: nextState_of_def)
  then show ?thesis using assms(1,3) by (simp add: write_earlier_def Let_def forEach_frame)
qed

lemma write_earlier_example:
  "nowState (after (write_earlier example_env (Num 5) (example_store [obj_a1] (Ref 0)))) = Ref 1 \<and>
   heap (after (write_earlier example_env (Num 5) (example_store [obj_a1] (Ref 0)))) = [obj_a1, obj_a1]"
  by (simp add: write_earlier_def own_props_def example_defs run_defs)

text \<open>
  On an entry it cannot parse, the earlier \<^verbatim>\<open>createPersistentStore\<close> logs the error and
  falls back to the initial state, but calls nothing else on the backend: the entry stays.
\<close>

lemma createPersistentStore_earlier_keeps_corrupt_entry:
  assumes "getItem_mode (backend w0) = GetReturns"
    and "map_of (items (backend w0)) (storageKey env) = Some str"
    and "parse env str (heap w0) = Abrupt e h"
    and "initial_state env init h = Normal (v, h')"
  shows "\<exists>w. createPersistentStore_earlier env init w0 = Normal w \<and>
             nowState w = v \<and>
             console w = console w0 @ [e] \<and>
             journal (backend w) = journal (backend w0) @ [GetItem (storageKey env)] \<and>
             items (backend w) = items (backend w0)"
  using assms
  by (simp add: createPersistentStore_earlier_def getItem_def earlier_from_init_def
        createStore_def subscribe_def)

end
